theory Spec2Isabelle
  imports Complex_Main
begin

section \<open>Change detection of the Drive folder tracker (class DiffTracker)\<close>

text \<open>
  The development follows the JavaScript class \<^verbatim>\<open>DiffTracker\<close>: the name-similarity
  scorer \<^verbatim>\<open>calculateNameSimilarity\<close>, the rename correlation \<^verbatim>\<open>findPossibleRename\<close>,
  the modification classifier \<^verbatim>\<open>getModificationDetails\<close> with \<^verbatim>\<open>getRevisionDetails\<close>,
  and the detector \<^verbatim>\<open>detectChanges\<close> with its helper \<^verbatim>\<open>wasRenamed\<close>.
\<close>

subsection \<open>Items\<close>

text \<open>
  An item is the object returned by the listing request with the fields
  \<^verbatim>\<open>id, name, mimeType, modifiedTime, parents, size\<close> plus the computed \<^verbatim>\<open>fullPath\<close>.
  A property that may be missing on the JavaScript object is an \<open>option\<close>, with \<open>None\<close> for
  \<^verbatim>\<open>undefined\<close>; strict equality \<^verbatim>\<open>===\<close> of two such properties is equality of the options.
  The field \<^verbatim>\<open>owners\<close> is never read by the detector and is left out. The size is the
  byte count as a number. The fields \<^verbatim>\<open>id\<close>, \<^verbatim>\<open>name\<close> and \<^verbatim>\<open>size\<close> carry the prefix \<open>item_\<close>,
  since the plain names are taken.
\<close>

text \<open>
  The name of an item is a JavaScript string: a sequence of UTF-16 code units, here the
  list of their numbers. The scorer measures and lower-cases names, and lower-casing can
  change the number of code units, so names keep the code units as they are. The other
  string fields are only compared with each other or searched for a fixed ASCII word.
  \<open>js\<close> writes the JavaScript string of a literal of 8-bit characters.
\<close>

type_synonym js_string = "nat list"

definition js :: "string \<Rightarrow> js_string" where
  "js s = map of_char s"

record item =
  item_id :: string
  item_name :: js_string
  mimeType :: "string option"
  modifiedTime :: string
  parents :: "string list option"
  item_size :: "int option"
  fullPath :: js_string

text \<open>The expression \<^verbatim>\<open>item.parents?.[0]\<close>: undefined without a parents array or on an empty one.\<close>

definition parent0 :: "item \<Rightarrow> string option" where
  "parent0 it = (case parents it of None \<Rightarrow> None | Some [] \<Rightarrow> None | Some (p # _) \<Rightarrow> Some p)"

text \<open>The expression \<^verbatim>\<open>item.size || 0\<close>.\<close>

definition size_or_0 :: "item \<Rightarrow> int" where
  "size_or_0 it = (case item_size it of None \<Rightarrow> 0 | Some n \<Rightarrow> n)"

subsection \<open>JavaScript Map built from an array of entries\<close>

text \<open>
  \<^verbatim>\<open>new Map(entries)\<close> sets the entries one after the other. A key that is set again keeps
  the position of its first insertion and takes the new value; iteration follows the
  insertion order. The map is therefore an association list with distinct keys.
\<close>

fun map_set :: "('k \<times> 'v) list \<Rightarrow> 'k \<Rightarrow> 'v \<Rightarrow> ('k \<times> 'v) list" where
  "map_set [] k v = [(k, v)]"
| "map_set ((k', v') # m) k v =
     (if k' = k then (k, v) # m else (k', v') # map_set m k v)"

definition new_Map :: "('k \<times> 'v) list \<Rightarrow> ('k \<times> 'v) list" where
  "new_Map entries = foldl (\<lambda>m (k, v). map_set m k v) [] entries"

definition map_get :: "('k \<times> 'v) list \<Rightarrow> 'k \<Rightarrow> 'v option" where
  "map_get m k = map_of m k"

definition map_has :: "('k \<times> 'v) list \<Rightarrow> 'k \<Rightarrow> bool" where
  "map_has m k = (map_of m k \<noteq> None)"

text \<open>The index \<^verbatim>\<open>new Map(contents.map((item) => [item.id, item]))\<close>.\<close>

definition id_map :: "item list \<Rightarrow> (string \<times> item) list" where
  "id_map contents = new_Map (map (\<lambda>it. (item_id it, it)) contents)"

subsection \<open>Name similarity\<close>

text \<open>
  A JavaScript number as far as the scorer produces one: the quotient of two string
  lengths is a rational, a division of zero by zero is \<^verbatim>\<open>NaN\<close>, and a division of a
  positive number by zero is \<^verbatim>\<open>Infinity\<close>. The quotient is kept exact; the comparison with
  the literal \<^verbatim>\<open>0.8\<close> agrees with the comparison of the doubles, because a quotient of
  two string lengths that is above four fifths exceeds it by at least 1 / (5 * length).
\<close>

datatype score = NaN | Infinity | Num rat

definition js_div :: "nat \<Rightarrow> nat \<Rightarrow> score" where
  "js_div a b =
     (if b = 0 then (if a = 0 then NaN else Infinity) else Num (of_nat a / of_nat b))"

text \<open>The comparison \<^verbatim>\<open>x > t\<close>: false on \<^verbatim>\<open>NaN\<close>.\<close>

fun js_gt :: "score \<Rightarrow> rat \<Rightarrow> bool" where
  "js_gt NaN t = False"
| "js_gt Infinity t = True"
| "js_gt (Num r) t = (t < r)"

text \<open>
  \<^verbatim>\<open>name.replace(/\.[^/.]+$/, "")\<close>: the pattern matches a dot followed by one or more
  characters other than slash and dot, up to the end of the string. Only the last dot of
  the name can start such a match, and it does when at least one character follows it and
  no slash does. The match is removed; without a match the name is unchanged. The dot
  is the code unit 46 and the slash the code unit 47.
\<close>

definition strip_ext :: "js_string \<Rightarrow> js_string" where
  "strip_ext nm =
     (let r = rev nm; tl_rev = takeWhile (\<lambda>c. c \<noteq> 46) r
      in if length tl_rev < length r \<and> tl_rev \<noteq> [] \<and> 47 \<notin> set tl_rev
         then rev (drop (Suc (length tl_rev)) r)
         else nm)"

text \<open>
  \<^verbatim>\<open>String.prototype.toLowerCase\<close> is a built-in of the language, defined by the
  Unicode case mappings, and is not code of the repository. The scorer takes it as a
  parameter: a function from strings to strings. It may change the length of a string
  (the one code unit U+0130 becomes the two code units U+0069 U+0307).
\<close>

type_synonym lower_casing = "js_string \<Rightarrow> js_string"

text \<open>
  Modelled from the spec: \<^verbatim>\<open>diff.diffChars\<close> comes from the package \<^verbatim>\<open>diff\<close>, which the
  repository requires and does not contain. The scorer only sums the lengths of the parts
  that are neither added nor removed, described in section 4.2 as the count of characters
  judged unchanged by a character-level alignment (longest common aligned run accounting).
  \<open>unchanged_chars\<close> is that sum: the length of a longest common subsequence.
\<close>

fun unchanged_chars :: "js_string \<Rightarrow> js_string \<Rightarrow> nat" where
  "unchanged_chars [] ys = 0"
| "unchanged_chars (x # xs) [] = 0"
| "unchanged_chars (x # xs) (y # ys) =
     (if x = y then Suc (unchanged_chars xs ys)
      else max (unchanged_chars xs (y # ys)) (unchanged_chars (x # xs) ys))"

definition calculateNameSimilarity ::
    "lower_casing \<Rightarrow> js_string \<Rightarrow> js_string \<Rightarrow> score" where
  "calculateNameSimilarity toLowerCase name1 name2 =
     (let base1 = strip_ext name1;
          base2 = strip_ext name2;
          unchanged = unchanged_chars (toLowerCase base1) (toLowerCase base2)
      in js_div unchanged (max (length base1) (length base2)))"

subsection \<open>Rename correlation\<close>

definition threshold :: rat where
  "threshold = 4 / 5"

text \<open>
  The functions that reach the scorer hand the lower-casing \<open>lc\<close> down to it, as the
  detector hands down the drive service \<open>svc\<close>.
\<close>

fun findPossibleRename ::
    "lower_casing \<Rightarrow> item \<Rightarrow> item list \<Rightarrow> (js_string \<times> score) option" where
  "findPossibleRename lc current [] = None"
| "findPossibleRename lc current (oldFile # rest) =
     (if mimeType current = mimeType oldFile \<and> item_size current = item_size oldFile
      then (let similarity = calculateNameSimilarity lc (item_name current) (item_name oldFile)
            in if js_gt similarity threshold
               then Some (item_name oldFile, similarity)
               else findPossibleRename lc current rest)
      else findPossibleRename lc current rest)"

subsection \<open>Modification details\<close>

text \<open>
  The drive service enters through the one request the classifier makes,
  \<^verbatim>\<open>driveService.revisions.list\<close>: for a file id it either fails with an error or answers
  with \<^verbatim>\<open>response.data.revisions\<close>, an array that may be missing. Writing to the logger
  is the only other effect of the code below and is not part of the state.
\<close>

datatype error = Error string

record revision =
  revision_id :: string
  revision_modifiedTime :: string
  lastModifyingUser :: string

type_synonym drive_service = "string \<Rightarrow> error + revision list option"

text \<open>
  \<^verbatim>\<open>lastRevision\<close> is \<^verbatim>\<open>revisions?.slice(-1)[0] || null\<close>, with \<open>None\<close> for \<^verbatim>\<open>null\<close>;
  \<^verbatim>\<open>revisionCount\<close> is \<^verbatim>\<open>revisions?.length || 0\<close>.
\<close>

record revision_details =
  lastRevision :: "revision option"
  revisionCount :: nat

text \<open>
  The whole body of \<^verbatim>\<open>getRevisionDetails\<close> is a \<^verbatim>\<open>try\<close> block whose handler logs and
  returns \<^verbatim>\<open>null\<close>. The result is \<open>Inr None\<close> for that \<^verbatim>\<open>null\<close>; \<open>Inl\<close> stands for a
  rejection, which the caller is prepared to catch.
\<close>

definition getRevisionDetails ::
    "drive_service \<Rightarrow> string \<Rightarrow> error + revision_details option" where
  "getRevisionDetails svc fileId =
     (case svc fileId of
        Inr revisions \<Rightarrow>
          Inr (Some \<lparr>lastRevision =
                       (case revisions of
                          None \<Rightarrow> None
                        | Some rs \<Rightarrow> (if rs = [] then None else Some (last rs))),
                     revisionCount =
                       (case revisions of None \<Rightarrow> 0 | Some rs \<Rightarrow> length rs)\<rparr>)
      | Inl e \<Rightarrow> Inr None)"

text \<open>
  The details object. The property \<^verbatim>\<open>revisionInfo\<close> is absent (\<open>None\<close>) until it is
  assigned; once assigned it holds \<^verbatim>\<open>null\<close> (\<open>Some None\<close>) or the revision details.
\<close>

record details =
  previousModifiedTime :: string
  newModifiedTime :: string
  previousSize :: int
  newSize :: int
  sizeDelta :: int
  revisionInfo :: "revision_details option option"

text \<open>\<^verbatim>\<open>s.includes(sub)\<close>: \<open>sub\<close> occurs in \<open>s\<close> as a contiguous block.\<close>

fun str_includes :: "string \<Rightarrow> string \<Rightarrow> bool" where
  "str_includes [] sub = (sub = [])"
| "str_includes (c # s) sub = (take (length sub) (c # s) = sub \<or> str_includes s sub)"

text \<open>The test \<^verbatim>\<open>current.mimeType?.includes("document")\<close>: false without a mime type.\<close>

definition is_document :: "item \<Rightarrow> bool" where
  "is_document it =
     (case mimeType it of None \<Rightarrow> False | Some m \<Rightarrow> str_includes m ''document'')"

definition getModificationDetails :: "drive_service \<Rightarrow> item \<Rightarrow> item \<Rightarrow> details" where
  "getModificationDetails svc current previous =
     (let details = \<lparr>previousModifiedTime = modifiedTime previous,
                      newModifiedTime = modifiedTime current,
                      previousSize = size_or_0 previous,
                      newSize = size_or_0 current,
                      sizeDelta = size_or_0 current - size_or_0 previous,
                      revisionInfo = None\<rparr>
      in if is_document current
         then (case getRevisionDetails svc (item_id current) of
                 Inr revisionDetails \<Rightarrow> details\<lparr>revisionInfo := Some revisionDetails\<rparr>
               | Inl e \<Rightarrow> details)
         else details)"

subsection \<open>The change detector\<close>

text \<open>
  A change object carries its \<^verbatim>\<open>type\<close> and \<^verbatim>\<open>item\<close> and the fields of its type:
  \<^verbatim>\<open>oldName\<close> and \<^verbatim>\<open>similarity\<close> for a rename, \<^verbatim>\<open>modificationDetails\<close> for a
  modification, \<^verbatim>\<open>oldParentId\<close> and \<^verbatim>\<open>newParentId\<close> for a move.
\<close>

datatype change =
    Added item
  | Renamed item js_string score
  | Modified item details
  | Moved item "string option" "string option"
  | Removed item

fun change_item :: "change \<Rightarrow> item" where
  "change_item (Added it) = it"
| "change_item (Renamed it oldName similarity) = it"
| "change_item (Modified it d) = it"
| "change_item (Moved it oldParentId newParentId) = it"
| "change_item (Removed it) = it"

fun renamed_from :: "js_string \<Rightarrow> change \<Rightarrow> bool" where
  "renamed_from nm (Renamed it oldName similarity) = (oldName = nm)"
| "renamed_from nm (Added it) = False"
| "renamed_from nm (Modified it d) = False"
| "renamed_from nm (Moved it oldParentId newParentId) = False"
| "renamed_from nm (Removed it) = False"

definition wasRenamed :: "item \<Rightarrow> change list \<Rightarrow> bool" where
  "wasRenamed it changes = list_ex (renamed_from (item_name it)) changes"

text \<open>
  The body of the first loop, for one entry \<^verbatim>\<open>[id, current]\<close> of the current map: the
  changes it pushes. An item object is truthy, so \<^verbatim>\<open>!last\<close> holds exactly when the id has
  no entry in the last map, and \<^verbatim>\<open>possibleRename\<close> is falsy exactly when it is \<^verbatim>\<open>null\<close>.
\<close>

definition current_step ::
    "lower_casing \<Rightarrow> drive_service \<Rightarrow> (string \<times> item) list \<Rightarrow> item list
      \<Rightarrow> string \<times> item \<Rightarrow> change list" where
  "current_step lc svc lastMap lastContents entry =
     (case entry of (ident, current) \<Rightarrow>
        (case map_get lastMap ident of
           None \<Rightarrow>
             (case findPossibleRename lc current lastContents of
                Some (oldName, similarity) \<Rightarrow> [Renamed current oldName similarity]
              | None \<Rightarrow> [Added current])
         | Some lastItem \<Rightarrow>
             (if modifiedTime current \<noteq> modifiedTime lastItem
              then [Modified current (getModificationDetails svc current lastItem)] else [])
             @ (if parent0 current \<noteq> parent0 lastItem
                then [Moved current (parent0 lastItem) (parent0 current)] else [])))"

fun current_loop ::
    "lower_casing \<Rightarrow> drive_service \<Rightarrow> (string \<times> item) list \<Rightarrow> item list
      \<Rightarrow> (string \<times> item) list \<Rightarrow> change list \<Rightarrow> change list" where
  "current_loop lc svc lastMap lastContents [] changes = changes"
| "current_loop lc svc lastMap lastContents (entry # rest) changes =
     current_loop lc svc lastMap lastContents rest
       (changes @ current_step lc svc lastMap lastContents entry)"

text \<open>The second loop, over the entries \<^verbatim>\<open>[id, last]\<close> of the last map.\<close>

fun removed_loop ::
    "(string \<times> item) list \<Rightarrow> (string \<times> item) list \<Rightarrow> change list \<Rightarrow> change list" where
  "removed_loop currentMap [] changes = changes"
| "removed_loop currentMap ((ident, lastItem) # rest) changes =
     removed_loop currentMap rest
       (if \<not> map_has currentMap ident \<and> \<not> wasRenamed lastItem changes
        then changes @ [Removed lastItem] else changes)"

text \<open>
  \<^verbatim>\<open>detectChanges(currentContents, lastContents)\<close>. \<open>None\<close> is a last snapshot that is
  \<^verbatim>\<open>null\<close> or \<^verbatim>\<open>undefined\<close>; an array, also the empty one, is truthy and passes the guard.
  The two maps keyed by parent and name are built by the code and never read; they are
  not modelled.
\<close>

definition detectChanges ::
    "lower_casing \<Rightarrow> drive_service \<Rightarrow> item list \<Rightarrow> item list option \<Rightarrow> change list" where
  "detectChanges lc svc currentContents lastContents =
     (case lastContents of
        None \<Rightarrow> []
      | Some lastItems \<Rightarrow>
          (let currentMap = id_map currentContents;
               lastMap = id_map lastItems
           in removed_loop currentMap lastMap
                (current_loop lc svc lastMap lastItems currentMap [])))"

text \<open>The value of \<^verbatim>\<open>changes\<close> between the two loops.\<close>

definition current_changes ::
    "lower_casing \<Rightarrow> drive_service \<Rightarrow> item list \<Rightarrow> item list \<Rightarrow> change list" where
  "current_changes lc svc cur prev =
     concat (map (current_step lc svc (id_map prev) prev) (id_map cur))"

subsection \<open>Candidates of the rename correlation\<close>

text \<open>
  The condition under which the scan of \<^verbatim>\<open>findPossibleRename\<close> returns at an old file:
  equal mime type, equal size, and a similarity above the threshold.
\<close>

definition rename_candidate :: "lower_casing \<Rightarrow> item \<Rightarrow> item \<Rightarrow> bool" where
  "rename_candidate lc current oldFile =
     (mimeType current = mimeType oldFile \<and> item_size current = item_size oldFile
      \<and> js_gt (calculateNameSimilarity lc (item_name current) (item_name oldFile)) threshold)"

subsection \<open>Sample data\<close>

text \<open>
  A drive service whose revision request always fails, and items to run the code on.
  \<open>sample_lower\<close> is the lower-casing the sample runs use. It agrees with the built-in on
  every string made of code units below 256 and of U+0130 (code unit 304): the capitals A
  to Z and the Latin-1 capitals (192 to 222 without the multiplication sign 215) move up
  by 32, U+0130 becomes U+0069 U+0307, and the other code units of that range stay.
\<close>

definition lower_unit :: "nat \<Rightarrow> js_string" where
  "lower_unit c =
     (if (65 \<le> c \<and> c \<le> 90) \<or> (192 \<le> c \<and> c \<le> 222 \<and> c \<noteq> 215) then [c + 32]
      else if c = 304 then [105, 775]
      else [c])"

definition sample_lower :: lower_casing where
  "sample_lower s = concat (map lower_unit s)"

definition failing_service :: drive_service where
  "failing_service fileId = Inl (Error ''revisions unavailable'')"

definition plain_file :: "string \<Rightarrow> string \<Rightarrow> string \<Rightarrow> item" where
  "plain_file ident nm t =
     \<lparr>item_id = ident, item_name = js nm, mimeType = Some ''text/plain'', modifiedTime = t,
      parents = Some [''root''], item_size = Some 10, fullPath = js nm\<rparr>"

definition doc_file :: "string \<Rightarrow> string \<Rightarrow> string \<Rightarrow> item" where
  "doc_file ident nm t =
     \<lparr>item_id = ident, item_name = js nm,
      mimeType = Some ''application/vnd.google-apps.document'', modifiedTime = t,
      parents = Some [''root''], item_size = None, fullPath = js nm\<rparr>"

section \<open>Properties\<close>

subsection \<open>The id-indexed map\<close>

lemma map_of_map_set: "map_of (map_set m k v) = (map_of m)(k \<mapsto> v)"
  by (induction m k v rule: map_set.induct) (auto simp: fun_upd_twist)

lemma keys_map_set: "fst ` set (map_set m k v) = insert k (fst ` set m)"
  by (induction m k v rule: map_set.induct) auto

lemma distinct_map_set: "distinct (map fst m) \<Longrightarrow> distinct (map fst (map_set m k v))"
proof (induction m k v rule: map_set.induct)
  case (1 k v)
  then show ?case by simp
next
  case (2 k' v' m k v)
  have "set (map fst (map_set m k v)) = insert k (fst ` set m)"
    using keys_map_set [of m k v] by simp
  with 2 show ?case by auto
qed

lemma set_map_set: "set (map_set m k v) \<subseteq> insert (k, v) (set m)"
  by (induction m k v rule: map_set.induct) auto

lemma map_set_fresh: "k \<notin> fst ` set m \<Longrightarrow> map_set m k v = m @ [(k, v)]"
  by (induction m k v rule: map_set.induct) auto

lemma foldl_map_set_keys:
  "fst ` set (foldl (\<lambda>m (k, v). map_set m k v) m es) = fst ` set m \<union> fst ` set es"
proof (induction es arbitrary: m)
  case Nil
  then show ?case by simp
next
  case (Cons e es)
  obtain k v where e: "e = (k, v)" by (cases e)
  show ?case by (simp add: e Cons.IH keys_map_set)
qed

lemma foldl_map_set_distinct:
  "distinct (map fst m) \<Longrightarrow> distinct (map fst (foldl (\<lambda>m (k, v). map_set m k v) m es))"
  by (induction es arbitrary: m) (auto simp: distinct_map_set split: prod.splits)

lemma foldl_map_set_subset:
  "set (foldl (\<lambda>m (k, v). map_set m k v) m es) \<subseteq> set m \<union> set es"
proof (induction es arbitrary: m)
  case Nil
  then show ?case by simp
next
  case (Cons e es)
  obtain k v where e: "e = (k, v)" by (cases e)
  have "set (foldl (\<lambda>m (k, v). map_set m k v) (map_set m k v) es)
          \<subseteq> set (map_set m k v) \<union> set es"
    by (rule Cons.IH)
  with set_map_set [of m k v] show ?case by (auto simp: e)
qed

lemma foldl_map_set_fresh:
  "distinct (map fst (m @ es)) \<Longrightarrow> foldl (\<lambda>m (k, v). map_set m k v) m es = m @ es"
proof (induction es arbitrary: m)
  case Nil
  then show ?case by simp
next
  case (Cons e es)
  obtain k v where e: "e = (k, v)" by (cases e)
  from Cons.prems have fresh: "k \<notin> fst ` set m" by (auto simp: e)
  from Cons.prems have "distinct (map fst ((m @ [(k, v)]) @ es))" by (simp add: e)
  from Cons.IH [OF this] show ?case by (simp add: e map_set_fresh [OF fresh])
qed

lemma id_map_distinct: "distinct (map fst (id_map xs))"
  unfolding id_map_def new_Map_def by (rule foldl_map_set_distinct) simp

lemma id_map_keys: "fst ` set (id_map xs) = item_id ` set xs"
  unfolding id_map_def new_Map_def by (simp add: foldl_map_set_keys image_image)

lemma id_map_entry:
  assumes "(k, v) \<in> set (id_map xs)"
  shows "v \<in> set xs" and "item_id v = k"
proof -
  have "set (id_map xs) \<subseteq> set (map (\<lambda>it. (item_id it, it)) xs)"
    unfolding id_map_def new_Map_def
    using foldl_map_set_subset [of "[]" "map (\<lambda>it. (item_id it, it)) xs"] by simp
  with assms have "(k, v) \<in> set (map (\<lambda>it. (item_id it, it)) xs)" by blast
  then show "v \<in> set xs" and "item_id v = k" by auto
qed

lemma id_map_of_distinct:
  "distinct (map item_id xs) \<Longrightarrow> id_map xs = map (\<lambda>it. (item_id it, it)) xs"
  unfolding id_map_def new_Map_def
  using foldl_map_set_fresh [of "[]" "map (\<lambda>it. (item_id it, it)) xs"]
  by (simp add: comp_def)

lemma map_get_id_map_entry: "(k, v) \<in> set (id_map xs) \<Longrightarrow> map_get (id_map xs) k = Some v"
  unfolding map_get_def using id_map_distinct [of xs] by simp

lemma map_get_id_map_None: "(map_get (id_map xs) k = None) = (k \<notin> item_id ` set xs)"
  unfolding map_get_def by (simp add: map_of_eq_None_iff id_map_keys)

lemma map_has_id_map: "map_has (id_map xs) k = (k \<in> item_id ` set xs)"
  unfolding map_has_def by (simp add: map_of_eq_None_iff id_map_keys)

lemma map_get_id_map_member:
  assumes "distinct (map item_id xs)" and "x \<in> set xs"
  shows "map_get (id_map xs) (item_id x) = Some x"
proof -
  from assms have "(item_id x, x) \<in> set (id_map xs)"
    by (auto simp: id_map_of_distinct)
  then show ?thesis by (rule map_get_id_map_entry)
qed

subsection \<open>The two loops in closed form\<close>

lemma current_loop_eq:
  "current_loop lc svc lastMap lastContents es changes
     = changes @ concat (map (current_step lc svc lastMap lastContents) es)"
  by (induction es arbitrary: changes) auto

lemma wasRenamed_Removed: "wasRenamed it (xs @ [Removed r]) = wasRenamed it xs"
  by (simp add: wasRenamed_def list_ex_iff)

lemma wasRenamed_iff:
  "wasRenamed it changes = (\<exists>subject s. Renamed subject (item_name it) s \<in> set changes)"
proof -
  have "renamed_from n c = (\<exists>subject s. c = Renamed subject n s)" for n c
    by (cases c) auto
  then show ?thesis by (auto simp: wasRenamed_def list_ex_iff)
qed

lemma removed_loop_eq:
  "removed_loop currentMap es changes
     = changes @ map (\<lambda>e. Removed (snd e))
         (filter (\<lambda>e. \<not> map_has currentMap (fst e) \<and> \<not> wasRenamed (snd e) changes) es)"
proof (induction es arbitrary: changes)
  case Nil
  then show ?case by simp
next
  case (Cons e es)
  obtain k l where e: "e = (k, l)" by (cases e)
  show ?case by (simp add: e Cons.IH wasRenamed_Removed)
qed

lemma detectChanges_Some:
  "detectChanges lc svc cur (Some prev)
     = current_changes lc svc cur prev
       @ map (\<lambda>e. Removed (snd e))
           (filter (\<lambda>e. \<not> map_has (id_map cur) (fst e)
                        \<and> \<not> wasRenamed (snd e) (current_changes lc svc cur prev))
              (id_map prev))"
  by (simp add: detectChanges_def Let_def current_loop_eq removed_loop_eq current_changes_def)

subsection \<open>Membership in the result\<close>

lemma change_item_current_step:
  "c \<in> set (current_step lc svc lastMap lastContents (k, v)) \<Longrightarrow> change_item c = v"
  by (auto simp: current_step_def split: option.splits if_splits)

lemma current_changes_item:
  assumes "c \<in> set (current_changes lc svc cur prev)"
  shows "change_item c \<in> set cur \<and> (item_id (change_item c), change_item c) \<in> set (id_map cur)"
proof -
  from assms obtain e where e: "e \<in> set (id_map cur)"
    and c: "c \<in> set (current_step lc svc (id_map prev) prev e)"
    by (auto simp: current_changes_def)
  obtain k v where kv: "e = (k, v)" by (cases e)
  from c have "change_item c = v" unfolding kv by (rule change_item_current_step)
  moreover from e have "v \<in> set cur" and "item_id v = k"
    unfolding kv by (rule id_map_entry)+
  ultimately show ?thesis using e kv by simp
qed

lemma detectChanges_member:
  "c \<in> set (detectChanges lc svc cur (Some prev)) =
     (c \<in> set (current_changes lc svc cur prev)
      \<or> (\<exists>k l. (k, l) \<in> set (id_map prev) \<and> c = Removed l \<and> k \<notin> item_id ` set cur
              \<and> \<not> wasRenamed l (current_changes lc svc cur prev)))"
proof -
  let ?keep = "\<lambda>e. \<not> map_has (id_map cur) (fst e)
                  \<and> \<not> wasRenamed (snd e) (current_changes lc svc cur prev)"
  have "(c \<in> set (map (\<lambda>e. Removed (snd e)) (filter ?keep (id_map prev))))
          = (\<exists>k l. (k, l) \<in> set (id_map prev) \<and> c = Removed l \<and> k \<notin> item_id ` set cur
                \<and> \<not> wasRenamed l (current_changes lc svc cur prev))"
    by (force simp: map_has_id_map)
  then show ?thesis by (simp add: detectChanges_Some)
qed

lemma filter_concat_map_none:
  "(\<And>x c. x \<in> set xs \<Longrightarrow> c \<in> set (f x) \<Longrightarrow> \<not> P c) \<Longrightarrow> filter P (concat (map f xs)) = []"
  by (induction xs) (auto simp: filter_empty_conv)

subsection \<open>The scan for a rename source\<close>

lemma findPossibleRename_none:
  "(findPossibleRename lc current lastContents = None)
     = (\<forall>x \<in> set lastContents. \<not> rename_candidate lc current x)"
  by (induction lastContents) (auto simp: rename_candidate_def Let_def)

lemma findPossibleRename_first:
  assumes "\<forall>x \<in> set xs. \<not> rename_candidate lc current x" and "rename_candidate lc current p"
  shows "findPossibleRename lc current (xs @ p # ys)
           = Some (item_name p, calculateNameSimilarity lc (item_name current) (item_name p))"
  using assms by (induction xs) (auto simp: rename_candidate_def Let_def)

lemma first_candidate:
  assumes "j < length xs" and "P (xs ! j)"
  shows "\<exists>i\<le>j. P (xs ! i) \<and> (\<forall>k<i. \<not> P (xs ! k))"
proof -
  define i where "i = (LEAST n. P (xs ! n))"
  have "P (xs ! i)" unfolding i_def using assms(2) by (rule LeastI)
  moreover have "i \<le> j" unfolding i_def using assms(2) by (rule Least_le)
  moreover have "\<forall>k<i. \<not> P (xs ! k)" unfolding i_def using not_less_Least by blast
  ultimately show ?thesis by blast
qed

lemma findPossibleRename_some:
  assumes "q \<in> set previous" and "rename_candidate lc current q"
  shows "\<exists>p \<in> set previous. rename_candidate lc current p
           \<and> findPossibleRename lc current previous
               = Some (item_name p, calculateNameSimilarity lc (item_name current) (item_name p))"
proof -
  from assms have "\<exists>x \<in> set previous. rename_candidate lc current x" by blast
  from split_list_first_prop [OF this]
  obtain xs p ys where split: "previous = xs @ p # ys"
    and cp: "rename_candidate lc current p"
    and before: "\<forall>x \<in> set xs. \<not> rename_candidate lc current x"
    by blast
  from findPossibleRename_first [OF before cp, of ys] split cp show ?thesis by auto
qed

subsection \<open>The changes about one current item\<close>

lemma current_step_not_Removed: "Removed r \<notin> set (current_step lc svc lastMap lastContents e)"
  by (cases e) (auto simp: current_step_def split: option.splits)

lemma current_changes_not_Removed: "Removed r \<notin> set (current_changes lc svc cur prev)"
  by (auto simp: current_changes_def current_step_not_Removed)

lemma Renamed_in_detectChanges:
  "(Renamed subject n s \<in> set (detectChanges lc svc cur (Some prev)))
     = (Renamed subject n s \<in> set (current_changes lc svc cur prev))"
  by (auto simp: detectChanges_member)

lemma current_changes_of_distinct:
  assumes "distinct (map item_id cur)"
  shows "current_changes lc svc cur prev
           = concat (map (\<lambda>it. current_step lc svc (id_map prev) prev (item_id it, it)) cur)"
  by (simp add: current_changes_def id_map_of_distinct [OF assms] comp_def)

lemma current_changes_about:
  assumes dist: "distinct (map item_id cur)" and mem: "x \<in> set cur"
  shows "filter (\<lambda>c. change_item c = x) (current_changes lc svc cur prev)
           = current_step lc svc (id_map prev) prev (item_id x, x)"
proof -
  let ?f = "\<lambda>it. current_step lc svc (id_map prev) prev (item_id it, it)"
  let ?P = "\<lambda>c. change_item c = x"
  from mem obtain as bs where split: "cur = as @ x # bs" by (auto dest: split_list)
  from dist have d: "distinct cur" by (simp add: distinct_map)
  with split have xa: "x \<notin> set as" and xb: "x \<notin> set bs" by auto
  have none: "filter ?P (concat (map ?f ys)) = []" if "x \<notin> set ys" for ys
  proof (rule filter_concat_map_none)
    fix y c assume "y \<in> set ys" and "c \<in> set (?f y)"
    then have "change_item c = y" by (simp add: change_item_current_step)
    with \<open>y \<in> set ys\<close> that show "\<not> change_item c = x" by auto
  qed
  have all: "filter ?P (?f x) = ?f x"
    by (auto simp: filter_id_conv change_item_current_step)
  have "current_changes lc svc cur prev
          = concat (map ?f as) @ ?f x @ concat (map ?f bs)"
    unfolding current_changes_of_distinct [OF dist] by (simp add: split)
  then show ?thesis
    by (simp add: none [OF xa] none [OF xb] all)
qed

lemma removed_part_about:
  assumes "x \<in> set cur"
  shows "filter (\<lambda>c. change_item c = x)
           (map (\<lambda>e. Removed (snd e))
              (filter (\<lambda>e. \<not> map_has (id_map cur) (fst e) \<and> Q e) (id_map prev))) = []"
proof -
  have "snd e \<noteq> x" if "e \<in> set (id_map prev)" and "\<not> map_has (id_map cur) (fst e)" for e
  proof -
    obtain k l where kl: "e = (k, l)" by (cases e)
    from that(1) have "item_id l = k" unfolding kl by (rule id_map_entry)
    with that(2) assms show ?thesis by (auto simp: kl map_has_id_map)
  qed
  then show ?thesis by (auto simp: filter_empty_conv)
qed

lemma detectChanges_about:
  assumes "distinct (map item_id cur)" and "x \<in> set cur"
  shows "filter (\<lambda>c. change_item c = x) (detectChanges lc svc cur (Some prev))
           = current_step lc svc (id_map prev) prev (item_id x, x)"
  by (simp add: detectChanges_Some current_changes_about [OF assms] removed_part_about [OF assms(2)])

lemma detectChanges_about_subset:
  assumes "distinct (map item_id cur)" and "x \<in> set cur"
    and "c \<in> set (current_step lc svc (id_map prev) prev (item_id x, x))"
  shows "c \<in> set (detectChanges lc svc cur (Some prev))"
proof -
  from assms(3) have "c \<in> set (filter (\<lambda>c. change_item c = x) (detectChanges lc svc cur (Some prev)))"
    by (simp only: detectChanges_about [OF assms(1,2)])
  then show ?thesis by simp
qed

subsection \<open>The revision request\<close>

text \<open>\<^verbatim>\<open>getRevisionDetails\<close> never rejects: the handler of the caller is never entered.\<close>

lemma getRevisionDetails_returns: "\<exists>r. getRevisionDetails svc fileId = Inr r"
  by (cases "svc fileId") (simp_all add: getRevisionDetails_def)

subsection \<open>Evaluated similarities\<close>

lemma js_eq_iff: "(js a = js b) = (a = b)"
  unfolding js_def using inj_of_char [where ?'a = nat] by (simp add: inj_map_eq_map)

lemma sample_lower_Nil: "sample_lower [] = []"
  by (simp add: sample_lower_def)

lemmas sim_eval = calculateNameSimilarity_def strip_ext_def sample_lower_def lower_unit_def js_def
  js_div_def

lemma sim_budget_a:
  "calculateNameSimilarity sample_lower (js ''budget2024.xls'') (js ''Budget2023.xls'') = Num (9 / 10)"
  by (simp add: sim_eval)

lemma sim_budget_b:
  "calculateNameSimilarity sample_lower (js ''budget2024.xls'') (js ''budget2024.xls'') = Num 1"
  by (simp add: sim_eval)

lemma sim_notes_a: "calculateNameSimilarity sample_lower (js ''notes1.txt'') (js ''notes.txt'') = Num (5 / 6)"
  by (simp add: sim_eval)

lemma sim_notes_b: "calculateNameSimilarity sample_lower (js ''notes1.txt'') (js ''other.txt'') = Num (1 / 2)"
  by (simp add: sim_eval)

lemma sim_report: "calculateNameSimilarity sample_lower (js ''report2.txt'') (js ''report.txt'') = Num (6 / 7)"
  by (simp add: sim_eval)

lemma sim_fresh: "calculateNameSimilarity sample_lower (js ''fresh.txt'') (js ''draft.txt'') = Num (1 / 5)"
  by (simp add: sim_eval)

lemmas detect_eval = detectChanges_def id_map_def new_Map_def current_step_def map_get_def
  map_has_def wasRenamed_def plain_file_def threshold_def parent0_def js_eq_iff

lemma run_notes:
  "detectChanges sample_lower failing_service [plain_file ''3'' ''notes1.txt'' ''T2'']
     (Some [plain_file ''1'' ''notes.txt'' ''T1'', plain_file ''2'' ''notes.txt'' ''T1'',
            plain_file ''4'' ''other.txt'' ''T1''])
   = [Renamed (plain_file ''3'' ''notes1.txt'' ''T2'') (js ''notes.txt'') (Num (5 / 6)),
      Removed (plain_file ''4'' ''other.txt'' ''T1'')]"
  by (simp add: detect_eval sim_notes_a sim_notes_b)

subsection \<open>Bounds of the scorer\<close>

lemma unchanged_chars_le: "unchanged_chars xs ys \<le> min (length xs) (length ys)"
  by (induction xs ys rule: unchanged_chars.induct) auto

section \<open>The claims\<close>

text \<open>
  In the statements \<open>lc\<close> is the lower-casing of the language and \<open>svc\<close> the drive service;
  a statement that leaves them free holds for every lower-casing and every service.
\<close>

subsection \<open>First observation\<close>

text \<open>
  C6. For every current snapshot, detection against a previous snapshot that is null or
  absent returns the empty list: no change of any type is reported.
\<close>

theorem detectChanges_null: "detectChanges lc svc S None = []"
  by (simp add: detectChanges_def)

theorem detectChanges_null_witness:
  "detectChanges sample_lower failing_service [plain_file ''1'' ''a.txt'' ''T1''] None = []"
  using detectChanges_null [of sample_lower failing_service "[plain_file ''1'' ''a.txt'' ''T1'']"] by simp

text \<open>
  C2, as stated: with the empty list as previous snapshot and one item A in the current
  one, the result would be empty. The empty array is not \<^verbatim>\<open>null\<close>: it passes the guard,
  the item has no entry in the empty last map and no rename source, and it is pushed as
  added. The result is not empty.
\<close>

theorem detectChanges_empty_previous_counterexample:
  "detectChanges sample_lower failing_service [plain_file ''1'' ''a.txt'' ''T1''] (Some []) \<noteq> []"
  by (simp add: detectChanges_def id_map_def new_Map_def current_step_def map_get_def)

text \<open>
  C2, amended: with the empty list as previous snapshot and the single item A as current
  snapshot, the result is exactly one added change for A. Only a previous snapshot that is
  null or absent gives the empty result (C6).
\<close>

theorem detectChanges_empty_previous: "detectChanges lc svc [a] (Some []) = [Added a]"
  by (simp add: detectChanges_def id_map_def new_Map_def current_step_def map_get_def)

subsection \<open>Identical snapshots\<close>

text \<open>
  C7. Comparing a snapshot with itself yields the empty list: no added, removed, modified,
  moved or renamed change. The statement holds for every list of items, in particular for
  the snapshots with distinct ids.
\<close>

theorem detectChanges_identical: "detectChanges lc svc S (Some S) = []"
proof -
  have step: "current_step lc svc (id_map S) S e = []" if "e \<in> set (id_map S)" for e
  proof -
    obtain k v where kv: "e = (k, v)" by (cases e)
    from that have "map_get (id_map S) k = Some v"
      unfolding kv by (rule map_get_id_map_entry)
    then show ?thesis by (simp add: kv current_step_def)
  qed
  then have cur: "current_changes lc svc S S = []"
    by (simp add: current_changes_def)
  have "map_has (id_map S) (fst e)" if "e \<in> set (id_map S)" for e
    using that id_map_keys [of S] by (auto simp: map_has_id_map)
  then have "filter (\<lambda>e. \<not> map_has (id_map S) (fst e)
                \<and> \<not> wasRenamed (snd e) (current_changes lc svc S S)) (id_map S) = []"
    by (simp add: filter_empty_conv)
  with cur show ?thesis by (simp add: detectChanges_Some)
qed

subsection \<open>First match wins\<close>

text \<open>
  C8. Whenever some item of the previous snapshot qualifies as rename source of a current
  item (equal mime type and size, similarity above 0.8), the scan returns the name and
  score of the qualifying item of least index, which lies at or before every other
  qualifying item. The scores are not compared with each other: of two qualifying items
  the earlier one is chosen, also when the later one scores higher.
\<close>

theorem first_match_wins:
  assumes "j < length previous" and "rename_candidate lc current (previous ! j)"
  shows "\<exists>i\<le>j. rename_candidate lc current (previous ! i)
           \<and> (\<forall>k<i. \<not> rename_candidate lc current (previous ! k))
           \<and> findPossibleRename lc current previous
               = Some (item_name (previous ! i),
                       calculateNameSimilarity lc (item_name current) (item_name (previous ! i)))"
proof -
  from first_candidate [of j previous "rename_candidate lc current", OF assms]
  obtain i where ij: "i \<le> j" and ci: "rename_candidate lc current (previous ! i)"
    and least: "\<forall>k<i. \<not> rename_candidate lc current (previous ! k)" by blast
  from ij assms(1) have il: "i < length previous" by simp
  then have split: "previous = take i previous @ previous ! i # drop (Suc i) previous"
    by (simp add: id_take_nth_drop)
  have "\<forall>x \<in> set (take i previous). \<not> rename_candidate lc current x"
    using least il by (auto simp: in_set_conv_nth)
  from findPossibleRename_first [OF this ci, of "drop (Suc i) previous"] split
  have "findPossibleRename lc current previous
          = Some (item_name (previous ! i),
                  calculateNameSimilarity lc (item_name current) (item_name (previous ! i)))"
    by simp
  with ij ci least show ?thesis by blast
qed

text \<open>
  An instance with two qualifying items: the first scores 9/10, the second 1, and the
  first is returned.
\<close>

theorem first_match_wins_witness:
  "rename_candidate sample_lower (plain_file ''9'' ''budget2024.xls'' ''T2'')
      ([plain_file ''1'' ''Budget2023.xls'' ''T1'', plain_file ''2'' ''budget2024.xls'' ''T1''] ! 1)
   \<and> calculateNameSimilarity sample_lower (js ''budget2024.xls'') (js ''Budget2023.xls'') = Num (9 / 10)
   \<and> calculateNameSimilarity sample_lower (js ''budget2024.xls'') (js ''budget2024.xls'') = Num 1
   \<and> findPossibleRename sample_lower (plain_file ''9'' ''budget2024.xls'' ''T2'')
        [plain_file ''1'' ''Budget2023.xls'' ''T1'', plain_file ''2'' ''budget2024.xls'' ''T1'']
       = Some (js ''Budget2023.xls'', Num (9 / 10))"
proof -
  let ?cur = "plain_file ''9'' ''budget2024.xls'' ''T2''"
  let ?prev = "[plain_file ''1'' ''Budget2023.xls'' ''T1'', plain_file ''2'' ''budget2024.xls'' ''T1'']"
  have len: "(1::nat) < length ?prev" by simp
  have c1: "rename_candidate sample_lower ?cur (?prev ! 1)"
    by (simp add: rename_candidate_def plain_file_def sim_budget_b threshold_def)
  have c0: "rename_candidate sample_lower ?cur (?prev ! 0)"
    by (simp add: rename_candidate_def plain_file_def sim_budget_a threshold_def)
  from first_match_wins [OF len c1]
  obtain i where "i \<le> 1" and "\<forall>k<i. \<not> rename_candidate sample_lower ?cur (?prev ! k)"
    and r: "findPossibleRename sample_lower ?cur ?prev
         = Some (item_name (?prev ! i), calculateNameSimilarity sample_lower (item_name ?cur) (item_name (?prev ! i)))"
    by blast
  with c0 have "i = 0" by (cases i) auto
  with r have "findPossibleRename sample_lower ?cur ?prev = Some (js ''Budget2023.xls'', Num (9 / 10))"
    by (simp add: plain_file_def sim_budget_a)
  with c1 show ?thesis by (simp add: sim_budget_a sim_budget_b)
qed

subsection \<open>Rename detection\<close>

text \<open>
  C1. Let the ids of the current snapshot be distinct, let a current item have an id that
  no previous item has, and let some previous item have the same mime type and size and a
  name similarity above 0.8. Then the scan matches a previous item p (the first one that
  qualifies), and the result holds exactly one change about the current item: the renamed
  change with the name of p as old name and the similarity to that name as score. No
  added change for the current item and no removed change for p is in the result.
\<close>

theorem rename_detected:
  assumes "distinct (map item_id current)" and "cur \<in> set current"
    and "item_id cur \<notin> item_id ` set previous"
    and "q \<in> set previous" and "rename_candidate lc cur q"
  shows "\<exists>p \<in> set previous. rename_candidate lc cur p
           \<and> findPossibleRename lc cur previous
               = Some (item_name p, calculateNameSimilarity lc (item_name cur) (item_name p))
           \<and> filter (\<lambda>c. change_item c = cur) (detectChanges lc svc current (Some previous))
               = [Renamed cur (item_name p)
                    (calculateNameSimilarity lc (item_name cur) (item_name p))]
           \<and> Added cur \<notin> set (detectChanges lc svc current (Some previous))
           \<and> Removed p \<notin> set (detectChanges lc svc current (Some previous))"
proof -
  let ?R = "detectChanges lc svc current (Some previous)"
  from findPossibleRename_some [OF assms(4,5)] obtain p where p: "p \<in> set previous"
    and cp: "rename_candidate lc cur p"
    and found: "findPossibleRename lc cur previous
      = Some (item_name p, calculateNameSimilarity lc (item_name cur) (item_name p))"
    by blast
  let ?c = "Renamed cur (item_name p) (calculateNameSimilarity lc (item_name cur) (item_name p))"
  from assms(3) have "map_get (id_map previous) (item_id cur) = None"
    by (simp add: map_get_id_map_None)
  with found have "current_step lc svc (id_map previous) previous (item_id cur, cur) = [?c]"
    by (simp add: current_step_def)
  with detectChanges_about [OF assms(1,2), where lc = lc and svc = svc and prev = previous]
  have about: "filter (\<lambda>c. change_item c = cur) ?R = [?c]" by simp
  have "Added cur \<notin> set ?R"
  proof
    assume "Added cur \<in> set ?R"
    then have "Added cur \<in> set (filter (\<lambda>c. change_item c = cur) ?R)" by simp
    with about show False by simp
  qed
  moreover have "Removed p \<notin> set ?R"
  proof
    assume "Removed p \<in> set ?R"
    then have "\<not> wasRenamed p (current_changes lc svc current previous)"
      by (auto simp: detectChanges_member current_changes_not_Removed)
    moreover have "?c \<in> set (filter (\<lambda>c. change_item c = cur) ?R)"
      by (simp only: about) simp
    then have "?c \<in> set (current_changes lc svc current previous)"
      by (simp add: Renamed_in_detectChanges)
    ultimately show False by (auto simp: wasRenamed_iff)
  qed
  ultimately show ?thesis using p cp found about by blast
qed

text \<open>
  An instance: a new id named notes1.txt against a previous snapshot with notes.txt and
  other.txt of the same type and size.
\<close>

theorem rename_detected_witness:
  "distinct (map item_id [plain_file ''3'' ''notes1.txt'' ''T2''])
   \<and> item_id (plain_file ''3'' ''notes1.txt'' ''T2'')
       \<notin> item_id ` set [plain_file ''1'' ''notes.txt'' ''T1'', plain_file ''4'' ''other.txt'' ''T1'']
   \<and> rename_candidate sample_lower (plain_file ''3'' ''notes1.txt'' ''T2'') (plain_file ''1'' ''notes.txt'' ''T1'')
   \<and> detectChanges sample_lower failing_service [plain_file ''3'' ''notes1.txt'' ''T2'']
         (Some [plain_file ''1'' ''notes.txt'' ''T1'', plain_file ''4'' ''other.txt'' ''T1''])
       = [Renamed (plain_file ''3'' ''notes1.txt'' ''T2'') (js ''notes.txt'') (Num (5 / 6)),
          Removed (plain_file ''4'' ''other.txt'' ''T1'')]
   \<and> Removed (plain_file ''1'' ''notes.txt'' ''T1'')
       \<notin> set (detectChanges sample_lower failing_service [plain_file ''3'' ''notes1.txt'' ''T2'']
                (Some [plain_file ''1'' ''notes.txt'' ''T1'', plain_file ''4'' ''other.txt'' ''T1'']))"
proof -
  let ?cur = "plain_file ''3'' ''notes1.txt'' ''T2''"
  let ?old = "plain_file ''1'' ''notes.txt'' ''T1''"
  let ?prev = "[?old, plain_file ''4'' ''other.txt'' ''T1'']"
  have h1: "distinct (map item_id [?cur])" by simp
  have h2: "?cur \<in> set [?cur]" by simp
  have h3: "item_id ?cur \<notin> item_id ` set ?prev" by (simp add: plain_file_def)
  have h4: "?old \<in> set ?prev" by simp
  have h5: "rename_candidate sample_lower ?cur ?old"
    by (simp add: rename_candidate_def plain_file_def sim_notes_a threshold_def)
  have other: "\<not> rename_candidate sample_lower ?cur (plain_file ''4'' ''other.txt'' ''T1'')"
    by (simp add: rename_candidate_def plain_file_def sim_notes_b threshold_def)
  from rename_detected [where lc = sample_lower and svc = failing_service, OF h1 h2 h3 h4 h5]
  obtain p where p: "p \<in> set ?prev" and cp: "rename_candidate sample_lower ?cur p"
    and about: "filter (\<lambda>c. change_item c = ?cur) (detectChanges sample_lower failing_service [?cur] (Some ?prev))
       = [Renamed ?cur (item_name p) (calculateNameSimilarity sample_lower (item_name ?cur) (item_name p))]"
    and removed: "Removed p \<notin> set (detectChanges sample_lower failing_service [?cur] (Some ?prev))"
    by blast
  from p cp other have "p = ?old" by auto
  with removed have "Removed ?old \<notin> set (detectChanges sample_lower failing_service [?cur] (Some ?prev))"
    by simp
  moreover have "detectChanges sample_lower failing_service [?cur] (Some ?prev)
       = [Renamed ?cur (js ''notes.txt'') (Num (5 / 6)), Removed (plain_file ''4'' ''other.txt'' ''T1'')]"
    by (simp add: detect_eval sim_notes_a sim_notes_b)
  ultimately show ?thesis using h1 h3 h5 by blast
qed

text \<open>
  C3, on the code: the scan of \<^verbatim>\<open>findPossibleRename\<close> runs over the whole previous
  snapshot, not over the items whose id is missing from the current one. Here the previous
  item report.txt keeps its id in the current snapshot, and the new item report2.txt is
  still reported as renamed from it.
\<close>

theorem rename_source_still_present:
  "item_id (plain_file ''1'' ''report.txt'' ''T1'')
     \<in> item_id ` set [plain_file ''1'' ''report.txt'' ''T1'', plain_file ''2'' ''report2.txt'' ''T1'']
   \<and> findPossibleRename sample_lower (plain_file ''2'' ''report2.txt'' ''T1'') [plain_file ''1'' ''report.txt'' ''T1'']
       = Some (js ''report.txt'', Num (6 / 7))
   \<and> detectChanges sample_lower failing_service
         [plain_file ''1'' ''report.txt'' ''T1'', plain_file ''2'' ''report2.txt'' ''T1'']
         (Some [plain_file ''1'' ''report.txt'' ''T1''])
       = [Renamed (plain_file ''2'' ''report2.txt'' ''T1'') (js ''report.txt'') (Num (6 / 7))]"
  by (simp add: detect_eval sim_report)

subsection \<open>Renames that keep the id\<close>

text \<open>
  C9. Let both snapshots have distinct ids, and let an item of the current snapshot and
  an item of the previous one share their id, their modification time and their first
  parent (their names, sizes and mime types are not consulted). Then no change in the
  result has an item with that id: the item is neither added nor removed, and no renamed,
  modified or moved change is about it.
\<close>

theorem pure_rename_invisible:
  assumes "distinct (map item_id current)" and "distinct (map item_id previous)"
    and "cur \<in> set current" and "old \<in> set previous" and "item_id cur = item_id old"
    and "modifiedTime cur = modifiedTime old" and "parent0 cur = parent0 old"
  shows "\<forall>c \<in> set (detectChanges lc svc current (Some previous)).
           item_id (change_item c) \<noteq> item_id cur"
proof
  fix c assume c: "c \<in> set (detectChanges lc svc current (Some previous))"
  show "item_id (change_item c) \<noteq> item_id cur"
  proof
    assume same: "item_id (change_item c) = item_id cur"
    from c consider (first) "c \<in> set (current_changes lc svc current previous)"
      | (second) k l where "(k, l) \<in> set (id_map previous)" and "c = Removed l"
          and "k \<notin> item_id ` set current"
      by (auto simp: detectChanges_member)
    then show False
    proof cases
      case first
      then have "change_item c \<in> set current" by (simp add: current_changes_item)
      with same assms(1,3) have "change_item c = cur"
        by (auto simp: distinct_map dest: inj_onD)
      with c have "c \<in> set (filter (\<lambda>c. change_item c = cur)
                              (detectChanges lc svc current (Some previous)))" by simp
      then have "c \<in> set (current_step lc svc (id_map previous) previous (item_id cur, cur))"
        by (simp only: detectChanges_about [OF assms(1,3)])
      moreover have "map_get (id_map previous) (item_id cur) = Some old"
        unfolding assms(5) using assms(2,4) by (rule map_get_id_map_member)
      ultimately show False using assms(6,7) by (simp add: current_step_def)
    next
      case second
      from second(1) have "item_id l = k" by (rule id_map_entry)
      with second(2,3) same assms(3) show False by auto
    qed
  qed
qed

text \<open>
  An instance: the item with id 1 changes its name from draft.txt to summary.txt and
  nothing else; the only change reported is the addition of another item.
\<close>

theorem pure_rename_invisible_witness:
  "distinct (map item_id [plain_file ''1'' ''summary.txt'' ''T1'', plain_file ''5'' ''fresh.txt'' ''T1''])
   \<and> distinct (map item_id [plain_file ''1'' ''draft.txt'' ''T1''])
   \<and> item_id (plain_file ''1'' ''summary.txt'' ''T1'') = item_id (plain_file ''1'' ''draft.txt'' ''T1'')
   \<and> item_name (plain_file ''1'' ''summary.txt'' ''T1'') \<noteq> item_name (plain_file ''1'' ''draft.txt'' ''T1'')
   \<and> detectChanges sample_lower failing_service
         [plain_file ''1'' ''summary.txt'' ''T1'', plain_file ''5'' ''fresh.txt'' ''T1'']
         (Some [plain_file ''1'' ''draft.txt'' ''T1''])
       = [Added (plain_file ''5'' ''fresh.txt'' ''T1'')]
   \<and> item_id (change_item (Added (plain_file ''5'' ''fresh.txt'' ''T1'')))
       \<noteq> item_id (plain_file ''1'' ''summary.txt'' ''T1'')"
proof -
  let ?cur = "plain_file ''1'' ''summary.txt'' ''T1''"
  let ?new = "plain_file ''5'' ''fresh.txt'' ''T1''"
  let ?old = "plain_file ''1'' ''draft.txt'' ''T1''"
  have h1: "distinct (map item_id [?cur, ?new])" by (simp add: plain_file_def)
  have h2: "distinct (map item_id [?old])" by simp
  have h3: "?cur \<in> set [?cur, ?new]" by simp
  have h4: "?old \<in> set [?old]" by simp
  have h5: "item_id ?cur = item_id ?old" by (simp add: plain_file_def)
  have h6: "modifiedTime ?cur = modifiedTime ?old" by (simp add: plain_file_def)
  have h7: "parent0 ?cur = parent0 ?old" by (simp add: plain_file_def parent0_def)
  have names: "item_name ?cur \<noteq> item_name ?old" by (simp add: plain_file_def js_eq_iff)
  have run: "detectChanges sample_lower failing_service [?cur, ?new] (Some [?old]) = [Added ?new]"
    by (simp add: detect_eval sim_fresh)
  from pure_rename_invisible [where lc = sample_lower and svc = failing_service, OF h1 h2 h3 h4 h5 h6 h7] run
  have "item_id (change_item (Added ?new)) \<noteq> item_id ?cur" by simp
  with h1 h2 h5 names run show ?thesis by blast
qed

subsection \<open>Suppression of removed changes\<close>

text \<open>
  C10. Let the ids of the previous snapshot be distinct and let a previous item have an
  id that no current item has. The item is reported as removed if and only if no renamed
  change of the result carries its name as old name. The test looks at the name only:
  whenever a renamed change carries the name of an item as old name, that item is not
  reported as removed, whichever item was the rename source.
\<close>

theorem removed_keyed_on_name:
  assumes "distinct (map item_id previous)" and "p \<in> set previous"
    and "item_id p \<notin> item_id ` set current"
  shows "(Removed p \<in> set (detectChanges lc svc current (Some previous)))
           = (\<not> (\<exists>subject s. Renamed subject (item_name p) s
                    \<in> set (detectChanges lc svc current (Some previous))))
         \<and> (\<forall>r subject s. Renamed subject (item_name r) s
                    \<in> set (detectChanges lc svc current (Some previous))
               \<longrightarrow> Removed r \<notin> set (detectChanges lc svc current (Some previous)))"
proof -
  let ?R = "detectChanges lc svc current (Some previous)"
  let ?L = "current_changes lc svc current previous"
  have removed: "Removed r \<in> set ?R \<Longrightarrow> \<not> wasRenamed r ?L" for r
    by (auto simp: detectChanges_member current_changes_not_Removed)
  from assms(1,2) have "(item_id p, p) \<in> set (id_map previous)"
    by (auto simp: id_map_of_distinct)
  with assms(3) have "\<not> wasRenamed p ?L \<Longrightarrow> Removed p \<in> set ?R"
    by (auto simp: detectChanges_member)
  with removed [of p] have "(Removed p \<in> set ?R) = (\<not> wasRenamed p ?L)" by blast
  then have "(Removed p \<in> set ?R)
      = (\<not> (\<exists>subject s. Renamed subject (item_name p) s \<in> set ?R))"
    by (simp add: wasRenamed_iff Renamed_in_detectChanges)
  moreover have "\<forall>r subject s. Renamed subject (item_name r) s \<in> set ?R
      \<longrightarrow> Removed r \<notin> set ?R"
    using removed by (auto simp: wasRenamed_iff Renamed_in_detectChanges)
  ultimately show ?thesis by blast
qed

text \<open>
  An instance: two previous items named notes.txt and one named other.txt, all missing
  from the current snapshot, and one rename from notes.txt. Neither of the two items named
  notes.txt is reported as removed; other.txt is.
\<close>

theorem removed_keyed_on_name_witness:
  "distinct (map item_id [plain_file ''1'' ''notes.txt'' ''T1'', plain_file ''2'' ''notes.txt'' ''T1'',
                          plain_file ''4'' ''other.txt'' ''T1''])
   \<and> Removed (plain_file ''1'' ''notes.txt'' ''T1'')
       \<notin> set (detectChanges sample_lower failing_service [plain_file ''3'' ''notes1.txt'' ''T2'']
                (Some [plain_file ''1'' ''notes.txt'' ''T1'', plain_file ''2'' ''notes.txt'' ''T1'',
                       plain_file ''4'' ''other.txt'' ''T1'']))
   \<and> Removed (plain_file ''2'' ''notes.txt'' ''T1'')
       \<notin> set (detectChanges sample_lower failing_service [plain_file ''3'' ''notes1.txt'' ''T2'']
                (Some [plain_file ''1'' ''notes.txt'' ''T1'', plain_file ''2'' ''notes.txt'' ''T1'',
                       plain_file ''4'' ''other.txt'' ''T1'']))
   \<and> Removed (plain_file ''4'' ''other.txt'' ''T1'')
       \<in> set (detectChanges sample_lower failing_service [plain_file ''3'' ''notes1.txt'' ''T2'']
                (Some [plain_file ''1'' ''notes.txt'' ''T1'', plain_file ''2'' ''notes.txt'' ''T1'',
                       plain_file ''4'' ''other.txt'' ''T1'']))"
proof -
  let ?a = "plain_file ''1'' ''notes.txt'' ''T1''"
  let ?b = "plain_file ''2'' ''notes.txt'' ''T1''"
  let ?d = "plain_file ''4'' ''other.txt'' ''T1''"
  let ?cur = "[plain_file ''3'' ''notes1.txt'' ''T2'']"
  let ?R = "detectChanges sample_lower failing_service ?cur (Some [?a, ?b, ?d])"
  have h1: "distinct (map item_id [?a, ?b, ?d])" by (simp add: plain_file_def)
  have ha: "?a \<in> set [?a, ?b, ?d]" and hb: "?b \<in> set [?a, ?b, ?d]"
    and hd: "?d \<in> set [?a, ?b, ?d]" by simp_all
  have ia: "item_id ?a \<notin> item_id ` set ?cur" and ib: "item_id ?b \<notin> item_id ` set ?cur"
    and idd: "item_id ?d \<notin> item_id ` set ?cur" by (simp_all add: plain_file_def)
  have renamed: "Renamed (plain_file ''3'' ''notes1.txt'' ''T2'') (js ''notes.txt'') (Num (5 / 6)) \<in> set ?R"
    by (simp add: run_notes)
  have no_other: "\<not> (\<exists>subject s. Renamed subject (item_name ?d) s \<in> set ?R)"
    unfolding run_notes by (simp add: plain_file_def js_eq_iff)
  have na: "item_name ?a = js ''notes.txt''" and nb: "item_name ?b = js ''notes.txt''"
    by (simp_all add: plain_file_def)
  from removed_keyed_on_name [where lc = sample_lower and svc = failing_service, OF h1 ha ia] renamed na
  have "Removed ?a \<notin> set ?R" by (simp only:) blast
  moreover from removed_keyed_on_name [where lc = sample_lower and svc = failing_service, OF h1 hb ib] renamed nb
  have "Removed ?b \<notin> set ?R" by (simp only:) blast
  moreover from removed_keyed_on_name [where lc = sample_lower and svc = failing_service, OF h1 hd idd] no_other
  have "Removed ?d \<in> set ?R" by blast
  ultimately show ?thesis using h1 by blast
qed

subsection \<open>Range of the similarity\<close>

text \<open>
  C4, as stated: two names that are both empty after stripping would score exactly 0, and
  every score would lie between 0 and 1. The code divides zero by zero: the score of
  \<^verbatim>\<open>.txt\<close> and \<^verbatim>\<open>.md\<close> is \<^verbatim>\<open>NaN\<close>, not 0. The divisor is the longer length before
  lower-casing, and lower-casing can lengthen a name: the name that consists of the one
  code unit U+0130 scores 2 against itself.
\<close>

theorem similarity_range_counterexample:
  "strip_ext (js ''.txt'') = [] \<and> strip_ext (js ''.md'') = []
   \<and> calculateNameSimilarity sample_lower (js ''.txt'') (js ''.md'') = NaN
   \<and> calculateNameSimilarity sample_lower (js ''.txt'') (js ''.md'') \<noteq> Num 0
   \<and> sample_lower [304] = [105, 775]
   \<and> calculateNameSimilarity sample_lower [304] [304] = Num 2"
  by (simp add: sim_eval)

text \<open>
  C4, amended: let lower-casing map the empty string to the empty string. For two names
  that are both empty after stripping the score is \<^verbatim>\<open>NaN\<close>, the quotient of zero by zero,
  and it does not exceed the threshold. For every other pair of names the divisor is
  positive and the score is a number that is not negative; it is at most 1 whenever the
  shorter of the two lower-cased stripped names is no longer than the longer of the two
  stripped names, as it is when lower-casing does not lengthen them.
\<close>

theorem similarity_range:
  assumes "lc [] = []"
  shows "(strip_ext a = [] \<and> strip_ext b = []
            \<longrightarrow> calculateNameSimilarity lc a b = NaN
                \<and> \<not> js_gt (calculateNameSimilarity lc a b) threshold)
         \<and> (\<not> (strip_ext a = [] \<and> strip_ext b = [])
            \<longrightarrow> (\<exists>r. calculateNameSimilarity lc a b = Num r \<and> 0 \<le> r
                  \<and> (min (length (lc (strip_ext a))) (length (lc (strip_ext b)))
                        \<le> max (length (strip_ext a)) (length (strip_ext b))
                      \<longrightarrow> r \<le> 1)))"
proof (intro conjI impI)
  assume e: "strip_ext a = [] \<and> strip_ext b = []"
  with assms show "calculateNameSimilarity lc a b = NaN"
    by (simp add: calculateNameSimilarity_def js_div_def)
  then show "\<not> js_gt (calculateNameSimilarity lc a b) threshold" by simp
next
  assume ne: "\<not> (strip_ext a = [] \<and> strip_ext b = [])"
  let ?u = "unchanged_chars (lc (strip_ext a)) (lc (strip_ext b))"
  let ?m = "max (length (strip_ext a)) (length (strip_ext b))"
  from ne have pos: "0 < ?m" by (auto simp: less_max_iff_disj)
  from ne have "js_div ?u ?m = Num (of_nat ?u / of_nat ?m)"
    by (auto simp: js_div_def)
  then have eq: "calculateNameSimilarity lc a b = Num (of_nat ?u / of_nat ?m)"
    by (simp only: calculateNameSimilarity_def Let_def)
  have nonneg: "(0::rat) \<le> of_nat ?u / of_nat ?m" by simp
  have "(of_nat ?u :: rat) / of_nat ?m \<le> 1"
    if "min (length (lc (strip_ext a))) (length (lc (strip_ext b))) \<le> ?m"
  proof -
    from unchanged_chars_le [of "lc (strip_ext a)" "lc (strip_ext b)"] that
    have "?u \<le> ?m" by (rule order_trans)
    with pos show ?thesis by (simp add: divide_le_eq_1 del: of_nat_max)
  qed
  with eq nonneg
  show "\<exists>r. calculateNameSimilarity lc a b = Num r \<and> 0 \<le> r
          \<and> (min (length (lc (strip_ext a))) (length (lc (strip_ext b))) \<le> ?m \<longrightarrow> r \<le> 1)"
    by blast
qed

text \<open>
  Instances: the two names without a base, and two names of letters and digits, whose
  lower-casing keeps their lengths.
\<close>

theorem similarity_range_witness:
  "sample_lower [] = []
   \<and> strip_ext (js ''.txt'') = [] \<and> strip_ext (js ''.md'') = []
   \<and> calculateNameSimilarity sample_lower (js ''.txt'') (js ''.md'') = NaN
   \<and> strip_ext (js ''notes1.txt'') = js ''notes1''
   \<and> min (length (sample_lower (strip_ext (js ''notes1.txt''))))
          (length (sample_lower (strip_ext (js ''notes.txt''))))
       \<le> max (length (strip_ext (js ''notes1.txt''))) (length (strip_ext (js ''notes.txt'')))
   \<and> calculateNameSimilarity sample_lower (js ''notes1.txt'') (js ''notes.txt'') = Num (5 / 6)
   \<and> (0::rat) \<le> 5 / 6 \<and> (5::rat) / 6 \<le> 1"
proof -
  have e: "strip_ext (js ''.txt'') = [] \<and> strip_ext (js ''.md'') = []"
    by (simp add: strip_ext_def js_def)
  have n: "strip_ext (js ''notes1.txt'') = js ''notes1''" by (simp add: strip_ext_def js_def)
  have len: "min (length (sample_lower (strip_ext (js ''notes1.txt''))))
               (length (sample_lower (strip_ext (js ''notes.txt''))))
             \<le> max (length (strip_ext (js ''notes1.txt''))) (length (strip_ext (js ''notes.txt'')))"
    by (simp add: strip_ext_def js_def sample_lower_def lower_unit_def)
  from similarity_range [where lc = sample_lower and a = "js ''.txt''" and b = "js ''.md''",
      OF sample_lower_Nil] e
  have nan: "calculateNameSimilarity sample_lower (js ''.txt'') (js ''.md'') = NaN" by blast
  from n have "\<not> (strip_ext (js ''notes1.txt'') = [] \<and> strip_ext (js ''notes.txt'') = [])"
    by (simp add: js_def)
  with similarity_range [where lc = sample_lower and a = "js ''notes1.txt''"
      and b = "js ''notes.txt''", OF sample_lower_Nil] len
  obtain r where "calculateNameSimilarity sample_lower (js ''notes1.txt'') (js ''notes.txt'') = Num r"
    and "0 \<le> r" and "r \<le> 1" by blast
  then have "calculateNameSimilarity sample_lower (js ''notes1.txt'') (js ''notes.txt'') = Num (5 / 6)
      \<and> (0::rat) \<le> 5 / 6 \<and> (5::rat) / 6 \<le> 1"
    by (simp add: sim_notes_a)
  with e n len nan sample_lower_Nil show ?thesis by blast
qed

subsection \<open>A failed revision request\<close>

text \<open>
  C5, as stated: after a failed revision request the details would have no revision field.
  \<^verbatim>\<open>getRevisionDetails\<close> catches the failure itself and returns \<^verbatim>\<open>null\<close>, which the
  classifier assigns: the field is present and holds \<^verbatim>\<open>null\<close>.
\<close>

theorem revision_failure_counterexample:
  "is_document (doc_file ''7'' ''plan'' ''T2'')
   \<and> failing_service (item_id (doc_file ''7'' ''plan'' ''T2'')) = Inl (Error ''revisions unavailable'')
   \<and> revisionInfo (getModificationDetails failing_service
        (doc_file ''7'' ''plan'' ''T2'') (doc_file ''7'' ''plan'' ''T1'')) = Some None
   \<and> revisionInfo (getModificationDetails failing_service
        (doc_file ''7'' ''plan'' ''T2'') (doc_file ''7'' ''plan'' ''T1'')) \<noteq> None"
  by (simp add: getModificationDetails_def getRevisionDetails_def is_document_def doc_file_def
      failing_service_def)

text \<open>
  C5, amended: let a document item be present in both snapshots (distinct ids) with a
  changed modification time, and let the revision request for it fail. The failure does
  not leave \<^verbatim>\<open>getRevisionDetails\<close>, which returns \<^verbatim>\<open>null\<close>; the details hold the two
  times, the two sizes and the size delta, and the revision field with the value
  \<^verbatim>\<open>null\<close>; and the modified change with these details is in the result.
\<close>

theorem revision_failure_recovered:
  assumes "is_document cur" and "svc (item_id cur) = Inl e"
    and "distinct (map item_id current)" and "distinct (map item_id previous)"
    and "cur \<in> set current" and "old \<in> set previous" and "item_id cur = item_id old"
    and "modifiedTime cur \<noteq> modifiedTime old"
  shows "getRevisionDetails svc (item_id cur) = Inr None
         \<and> getModificationDetails svc cur old
             = \<lparr>previousModifiedTime = modifiedTime old, newModifiedTime = modifiedTime cur,
                previousSize = size_or_0 old, newSize = size_or_0 cur,
                sizeDelta = size_or_0 cur - size_or_0 old, revisionInfo = Some None\<rparr>
         \<and> Modified cur (getModificationDetails svc cur old)
             \<in> set (detectChanges lc svc current (Some previous))"
proof -
  from assms(2) have rev: "getRevisionDetails svc (item_id cur) = Inr None"
    by (simp add: getRevisionDetails_def)
  with assms(1) have details: "getModificationDetails svc cur old
      = \<lparr>previousModifiedTime = modifiedTime old, newModifiedTime = modifiedTime cur,
         previousSize = size_or_0 old, newSize = size_or_0 cur,
         sizeDelta = size_or_0 cur - size_or_0 old, revisionInfo = Some None\<rparr>"
    by (simp add: getModificationDetails_def)
  have "map_get (id_map previous) (item_id cur) = Some old"
    unfolding assms(7) using assms(4,6) by (rule map_get_id_map_member)
  with assms(8) have "Modified cur (getModificationDetails svc cur old)
      \<in> set (current_step lc svc (id_map previous) previous (item_id cur, cur))"
    by (simp add: current_step_def)
  with assms(3,5) have "Modified cur (getModificationDetails svc cur old)
      \<in> set (detectChanges lc svc current (Some previous))"
    by (rule detectChanges_about_subset)
  with rev details show ?thesis by blast
qed

theorem revision_failure_recovered_witness:
  "is_document (doc_file ''7'' ''plan'' ''T2'')
   \<and> failing_service (item_id (doc_file ''7'' ''plan'' ''T2'')) = Inl (Error ''revisions unavailable'')
   \<and> modifiedTime (doc_file ''7'' ''plan'' ''T2'') \<noteq> modifiedTime (doc_file ''7'' ''plan'' ''T1'')
   \<and> detectChanges sample_lower failing_service [doc_file ''7'' ''plan'' ''T2''] (Some [doc_file ''7'' ''plan'' ''T1''])
       = [Modified (doc_file ''7'' ''plan'' ''T2'')
            \<lparr>previousModifiedTime = ''T1'', newModifiedTime = ''T2'', previousSize = 0,
               newSize = 0, sizeDelta = 0, revisionInfo = Some None\<rparr>]"
proof -
  let ?cur = "doc_file ''7'' ''plan'' ''T2''"
  let ?old = "doc_file ''7'' ''plan'' ''T1''"
  have h1: "is_document ?cur" by (simp add: is_document_def doc_file_def)
  have h2: "failing_service (item_id ?cur) = Inl (Error ''revisions unavailable'')"
    by (simp add: failing_service_def)
  have h3: "distinct (map item_id [?cur])" and h4: "distinct (map item_id [?old])" by simp_all
  have h5: "?cur \<in> set [?cur]" and h6: "?old \<in> set [?old]" by simp_all
  have h7: "item_id ?cur = item_id ?old" by (simp add: doc_file_def)
  have h8: "modifiedTime ?cur \<noteq> modifiedTime ?old" by (simp add: doc_file_def)
  have one: "length (detectChanges sample_lower failing_service [?cur] (Some [?old])) = 1"
    by (simp add: detectChanges_def id_map_def new_Map_def current_step_def map_get_def
        map_has_def doc_file_def parent0_def)
  from revision_failure_recovered [where lc = sample_lower and svc = failing_service, OF h1 h2 h3 h4 h5 h6 h7 h8]
  have d: "getModificationDetails failing_service ?cur ?old
      = \<lparr>previousModifiedTime = modifiedTime ?old, newModifiedTime = modifiedTime ?cur,
         previousSize = size_or_0 ?old, newSize = size_or_0 ?cur,
         sizeDelta = size_or_0 ?cur - size_or_0 ?old, revisionInfo = Some None\<rparr>"
    and m: "Modified ?cur (getModificationDetails failing_service ?cur ?old)
      \<in> set (detectChanges sample_lower failing_service [?cur] (Some [?old]))"
    by blast+
  from one obtain c where c: "detectChanges sample_lower failing_service [?cur] (Some [?old]) = [c]"
    by (auto simp: length_Suc_conv)
  with m have "detectChanges sample_lower failing_service [?cur] (Some [?old])
      = [Modified ?cur (getModificationDetails failing_service ?cur ?old)]" by simp
  also have "getModificationDetails failing_service ?cur ?old
      = \<lparr>previousModifiedTime = ''T1'', newModifiedTime = ''T2'', previousSize = 0,
         newSize = 0, sizeDelta = 0, revisionInfo = Some None\<rparr>"
    unfolding d by (simp add: doc_file_def size_or_0_def)
  finally show ?thesis using h1 h2 h8 by blast
qed

end
